theory Spec2Isabelle
  imports Complex_Main
begin

section \<open>Python strings\<close>

text \<open>
  A Python \<open>str\<close> is a sequence of Unicode code points, and \<open>len\<close>, \<open>in\<close>,
  \<open>strip\<close>, \<open>lower\<close> and the \<open>re\<close> module all work on code points. A string is
  therefore a list of natural numbers; \<open>str\<close> writes an ASCII literal of the source.
\<close>

type_synonym pystr = "nat list"

definition str :: "string \<Rightarrow> pystr" where
  "str s = map of_char s"

text \<open>
  What the interpreter does with a code point above 127 is decided by the Unicode
  database it was built with, which is not part of the repository. It is a parameter
  of the model: \<open>uni_alnum\<close> and \<open>uni_space\<close> are \<open>str.isalnum\<close> and \<open>str.isspace\<close>
  on those code points, and \<open>uni_lower left c right\<close> is what \<open>str.lower\<close> puts in the
  place of such a \<open>c\<close> standing between \<open>left\<close> and \<open>right\<close> (the lower case of a
  capital sigma depends on its neighbours). The three enrichment capabilities are
  parameters as well: the polarity score of TextBlob, the named entities of the spaCy
  pipeline (text and label of each), and \<open>json.dumps\<close> on the four keyword buckets.
\<close>

record keyword_buckets =
  countries :: "pystr list"
  places :: "pystr list"
  names :: "pystr list"
  other_keywords :: "pystr list"

record capabilities =
  uni_alnum :: "nat \<Rightarrow> bool"
  uni_space :: "nat \<Rightarrow> bool"
  uni_lower :: "pystr \<Rightarrow> nat \<Rightarrow> pystr \<Rightarrow> pystr"
  polarity :: "pystr \<Rightarrow> real"
  ents :: "pystr \<Rightarrow> (pystr \<times> pystr) list"
  dumps :: "keyword_buckets \<Rightarrow> pystr"

definition ascii_lower :: "nat \<Rightarrow> nat" where
  "ascii_lower c = (if 65 \<le> c \<and> c \<le> 90 then c + 32 else c)"

text \<open>\<open>text.lower()\<close>, reading the string from left to right.\<close>

fun lower_from :: "capabilities \<Rightarrow> pystr \<Rightarrow> pystr \<Rightarrow> pystr" where
  "lower_from cap left [] = []"
| "lower_from cap left (c # right) =
     (if c < 128 then [ascii_lower c] else uni_lower cap left c right)
       @ lower_from cap (left @ [c]) right"

definition lower :: "capabilities \<Rightarrow> pystr \<Rightarrow> pystr" where
  "lower cap text = lower_from cap [] text"

text \<open>\<open>str.isspace\<close> and the class \<open>\s\<close> of a \<open>str\<close> pattern: the ASCII part is
  tab to carriage return, the four separators 28 to 31, and the blank.\<close>

definition is_space :: "capabilities \<Rightarrow> nat \<Rightarrow> bool" where
  "is_space cap c =
     (if c < 128 then (9 \<le> c \<and> c \<le> 13) \<or> (28 \<le> c \<and> c \<le> 32)
      else uni_space cap c)"

text \<open>The class \<open>\w\<close> of a \<open>str\<close> pattern: alphanumeric, or the underscore.\<close>

definition is_word :: "capabilities \<Rightarrow> nat \<Rightarrow> bool" where
  "is_word cap c =
     (if c < 128
      then (48 \<le> c \<and> c \<le> 57) \<or> (65 \<le> c \<and> c \<le> 90) \<or> (97 \<le> c \<and> c \<le> 122) \<or> c = 95
      else uni_alnum cap c)"

text \<open>\<open>s.strip()\<close>.\<close>

definition strip :: "capabilities \<Rightarrow> pystr \<Rightarrow> pystr" where
  "strip cap s = rev (dropWhile (is_space cap) (rev (dropWhile (is_space cap) s)))"

text \<open>\<open>sub in s\<close> on strings: \<open>sub\<close> starts at some position of \<open>s\<close>.\<close>

fun startswith :: "pystr \<Rightarrow> pystr \<Rightarrow> bool" where
  "startswith s [] = True"
| "startswith [] (p # ps) = False"
| "startswith (c # cs) (p # ps) = (c = p \<and> startswith cs ps)"

fun py_in :: "pystr \<Rightarrow> pystr \<Rightarrow> bool" where
  "py_in sub [] = (sub = [])"
| "py_in sub (c # cs) = (startswith (c # cs) sub \<or> py_in sub cs)"

text \<open>\<open>sep.join(xs)\<close> on a list of strings.\<close>

fun join :: "pystr \<Rightarrow> pystr list \<Rightarrow> pystr" where
  "join sep [] = []"
| "join sep [x] = x"
| "join sep (x # y # ys) = x @ sep @ join sep (y # ys)"

section \<open>Enrichment\<close>

text \<open>\<open>analyze_sentiment\<close>: the sign of the polarity score.\<close>

definition analyze_sentiment :: "capabilities \<Rightarrow> pystr \<Rightarrow> pystr" where
  "analyze_sentiment cap text =
     (if polarity cap text > 0 then str ''Positive''
      else if polarity cap text < 0 then str ''Negative''
      else str ''Neutral'')"

text \<open>
  \<open>identify_sector\<close>: the table is a dict literal, which keeps the order in which it
  is written; the loop returns at the first sector one of whose keywords is in the
  lower-cased text.
\<close>

definition sectors :: "(pystr \<times> pystr list) list" where
  "sectors =
    [(str ''Defense'', [str ''military'', str ''army'', str ''navy'', str ''defense'']),
     (str ''Government'', [str ''policy'', str ''election'', str ''government'', str ''minister'']),
     (str ''Sports'', [str ''football'', str ''cricket'', str ''Olympics'', str ''sports'']),
     (str ''Crime'', [str ''crime'', str ''murder'', str ''theft'', str ''fraud'']),
     (str ''Entertainment'', [str ''movie'', str ''film'', str ''actor'', str ''celebrity'']),
     (str ''Financial'', [str ''stocks'', str ''market'', str ''finance'', str ''investment'']),
     (str ''Energy'', [str ''oil'', str ''gas'', str ''energy'', str ''renewable'']),
     (str ''Technology'',
        [str ''cybersecurity'', str ''microsoft'', str ''network'', str ''data science'',
         str ''machine learning'', str ''information technology'', str ''technology'',
         str ''artificial intelligence''])]"

fun sector_loop :: "(pystr \<times> pystr list) list \<Rightarrow> pystr \<Rightarrow> pystr" where
  "sector_loop [] text_lower = str ''General''"
| "sector_loop ((sector, keywords) # rest) text_lower =
     (if list_ex (\<lambda>keyword. py_in keyword text_lower) keywords then sector
      else sector_loop rest text_lower)"

definition identify_sector :: "capabilities \<Rightarrow> pystr \<Rightarrow> pystr" where
  "identify_sector cap text = sector_loop sectors (lower cap text)"

text \<open>\<open>extract_keywords\<close>: every entity goes to one bucket, chosen by its label.\<close>

fun bucket_loop :: "(pystr \<times> pystr) list \<Rightarrow> keyword_buckets \<Rightarrow> keyword_buckets" where
  "bucket_loop [] entities = entities"
| "bucket_loop ((ent_text, label) # rest) entities =
     bucket_loop rest
       (if label = str ''GPE'' \<or> label = str ''LOC''
          then entities\<lparr>places := places entities @ [ent_text]\<rparr>
        else if label = str ''PERSON''
          then entities\<lparr>names := names entities @ [ent_text]\<rparr>
        else if label = str ''ORG'' \<or> label = str ''NORP''
          then entities\<lparr>countries := countries entities @ [ent_text]\<rparr>
        else entities\<lparr>other_keywords := other_keywords entities @ [ent_text]\<rparr>)"

definition extract_keywords :: "capabilities \<Rightarrow> pystr \<Rightarrow> keyword_buckets" where
  "extract_keywords cap text =
     bucket_loop (ents cap text)
       \<lparr>countries = [], places = [], names = [], other_keywords = []\<rparr>"

section \<open>The feed entry normalizer\<close>

text \<open>
  A raw entry as \<open>extract_feed_entry\<close> reads it: each field is there or not, and a
  tag carries a term or \<open>None\<close> (the parser keeps a category that has only a scheme
  or a label, and an entry can have the key \<open>tags\<close> with an empty list).
\<close>

record tag =
  tag_term :: "pystr option"

record raw_entry =
  e_title :: "pystr option"
  e_description :: "pystr option"
  e_author :: "pystr option"
  e_tags :: "tag list option"
  e_published :: "pystr option"
  e_link :: "pystr option"

datatype exn = TypeError | OperationalError | OtherError

text \<open>
  The nine values \<open>extract_feed_entry\<close> returns, which are the nine columns the
  search selects. The type of \<open>published_at\<close> is a parameter: it is a string in the
  tuple, and the value the storage engine keeps in a stored row.
\<close>

record 'k post =
  title :: pystr
  description :: pystr
  author :: pystr
  categories :: pystr
  sentiment :: pystr
  sector :: pystr
  keywords_str :: pystr
  published_at :: 'k
  link :: pystr

text \<open>\<open>entry.get(key, default)\<close> and \<open>getattr(entry, key, default)\<close>.\<close>

definition get_or :: "'a option \<Rightarrow> 'a \<Rightarrow> 'a" where
  "get_or field dflt = (case field of None \<Rightarrow> dflt | Some v \<Rightarrow> v)"

text \<open>\<open>re.sub(r'[^\x00-\x7F]+', '', s)\<close>: every run of code points above 127 goes.\<close>

definition strip_non_ascii :: "pystr \<Rightarrow> pystr" where
  "strip_non_ascii s = filter (\<lambda>c. c \<le> 127) s"

text \<open>The terms handed to \<open>', '.join\<close>, which raises \<open>TypeError\<close> on a \<open>None\<close>.\<close>

fun tag_terms :: "tag list \<Rightarrow> exn + pystr list" where
  "tag_terms [] = Inr []"
| "tag_terms (t # ts) =
     (case tag_term t of
        None \<Rightarrow> Inl TypeError
      | Some x \<Rightarrow> (case tag_terms ts of Inl e \<Rightarrow> Inl e | Inr xs \<Rightarrow> Inr (x # xs)))"

definition entry_categories :: "raw_entry \<Rightarrow> exn + pystr" where
  "entry_categories entry =
     (case e_tags entry of
        None \<Rightarrow> Inr (str ''Uncategorized'')
      | Some tags \<Rightarrow>
          (case tag_terms tags of Inl e \<Rightarrow> Inl e | Inr terms \<Rightarrow> Inr (join (str '', '') terms)))"

definition extract_feed_entry :: "capabilities \<Rightarrow> raw_entry \<Rightarrow> exn + pystr post" where
  "extract_feed_entry cap entry =
     (let title_v = strip_non_ascii (get_or (e_title entry) (str ''No Title''));
          description_v = strip_non_ascii (get_or (e_description entry) (str ''No Description''));
          author_v = get_or (e_author entry) (str ''Unknown Author'')
      in case entry_categories entry of
           Inl e \<Rightarrow> Inl e
         | Inr categories_v \<Rightarrow>
             Inr \<lparr>title = title_v,
                  description = description_v,
                  author = author_v,
                  categories = categories_v,
                  sentiment = analyze_sentiment cap (title_v @ str '' '' @ description_v),
                  sector = identify_sector cap (title_v @ str '' '' @ description_v),
                  keywords_str = dumps cap (extract_keywords cap (title_v @ str '' '' @ description_v)),
                  published_at = get_or (e_published entry) (str ''Unknown Date''),
                  link = get_or (e_link entry) (str ''No Link'')\<rparr>)"

section \<open>The record store\<close>

text \<open>
  The table \<open>blog_posts\<close> in the order of its row ids, and the largest id the
  \<open>AUTOINCREMENT\<close> column has handed out.
\<close>

record 'k blog_row =
  row_id :: nat
  cols :: "'k post"

record 'k blog_db =
  blog_posts :: "'k blog_row list"
  seq :: nat

text \<open>
  What lies outside the program. The column \<open>published_at\<close> is declared
  \<open>DATETIME\<close>, so the engine converts a text bound to it by the column's affinity
  before it stores and compares it: \<open>affinity\<close> is that conversion. \<open>conflict_burn\<close> is
  the number of row ids an insert that ends in the \<open>DO UPDATE\<close> branch uses up.
  \<open>parse\<close> is \<open>feedparser.parse\<close> and \<open>db_fault\<close> is how an access to the database
  goes; both are asked at a moment, counted by \<open>tick\<close>, since neither the network nor
  the database file answers the same way twice.
\<close>

record feed =
  bozo :: bool
  entries :: "raw_entry list"

datatype db_outcome = Committed | ConnectRaises | ExecuteRaises | CommitRaises

record 'k world =
  affinity :: "pystr \<Rightarrow> 'k"
  conflict_burn :: nat
  parse :: "nat \<Rightarrow> pystr \<Rightarrow> exn + feed"
  db_fault :: "nat \<Rightarrow> db_outcome"

definition init_db :: "'k blog_db" where
  "init_db = \<lparr>blog_posts = [], seq = 0\<rparr>"

text \<open>
  The statement \<open>INSERT ... ON CONFLICT(published_at) DO UPDATE SET ...\<close>, with the
  row count the cursor reports after it: the engine counts the row it inserted and
  the row the \<open>DO UPDATE\<close> branch wrote, whatever the values written.
\<close>

definition overwrite :: "pystr post \<Rightarrow> 'k blog_row \<Rightarrow> 'k blog_row" where
  "overwrite p r =
     r\<lparr>cols := (cols r)\<lparr>title := title p,
                          description := description p,
                          author := author p,
                          categories := categories p,
                          sentiment := sentiment p,
                          sector := sector p,
                          keywords_str := keywords_str p,
                          link := link p\<rparr>\<rparr>"

definition stored :: "'k \<Rightarrow> pystr post \<Rightarrow> 'k post" where
  "stored k p =
     \<lparr>title = title p,
      description = description p,
      author = author p,
      categories = categories p,
      sentiment = sentiment p,
      sector = sector p,
      keywords_str = keywords_str p,
      published_at = k,
      link = link p\<rparr>"

definition new_row :: "nat \<Rightarrow> 'k \<Rightarrow> pystr post \<Rightarrow> 'k blog_row" where
  "new_row n k p = \<lparr>row_id = n, cols = stored k p\<rparr>"

abbreviation row_key :: "'k blog_row \<Rightarrow> 'k" where
  "row_key r \<equiv> published_at (cols r)"

definition upsert :: "'k world \<Rightarrow> pystr post \<Rightarrow> 'k blog_db \<Rightarrow> 'k blog_db \<times> nat" where
  "upsert w p db =
     (let k = affinity w (published_at p) in
      if list_ex (\<lambda>r. row_key r = k) (blog_posts db)
      then (db\<lparr>blog_posts := map (\<lambda>r. if row_key r = k then overwrite p r else r)
                                  (blog_posts db),
               seq := seq db + conflict_burn w\<rparr>, 1)
      else (db\<lparr>blog_posts := blog_posts db @ [new_row (seq db + 1) k p],
               seq := seq db + 1\<rparr>, 1))"

text \<open>
  The operator \<open>LIKE\<close> of the engine, pattern first. The engine compares the two
  texts as C strings, which end at their first NUL (code point 0), whatever follows
  it in the stored value: \<open>c_string\<close>. In what is left, \<open>%\<close> (37) stands for any run
  of characters, \<open>_\<close> (95) for any one character, and any other character for itself
  or, between two ASCII characters, for its other case.
\<close>

definition like_char :: "nat \<Rightarrow> nat \<Rightarrow> bool" where
  "like_char p c = (p = c \<or> (p < 128 \<and> c < 128 \<and> ascii_lower p = ascii_lower c))"

fun pattern_compare :: "pystr \<Rightarrow> pystr \<Rightarrow> bool" where
  "pattern_compare [] s = (s = [])"
| "pattern_compare (p # ps) [] = (p = 37 \<and> pattern_compare ps [])"
| "pattern_compare (p # ps) (c # cs) =
     (if p = 37 then pattern_compare ps (c # cs) \<or> pattern_compare (p # ps) cs
      else if p = 95 then pattern_compare ps cs
      else like_char p c \<and> pattern_compare ps cs)"

definition c_string :: "pystr \<Rightarrow> pystr" where
  "c_string s = takeWhile (\<lambda>c. c \<noteq> 0) s"

definition like :: "pystr \<Rightarrow> pystr \<Rightarrow> bool" where
  "like pat s = pattern_compare (c_string pat) (c_string s)"

text \<open>The \<open>SELECT\<close> of the search, for the query put between two \<open>%\<close>.\<close>

definition select_like :: "pystr \<Rightarrow> 'k blog_db \<Rightarrow> 'k post list" where
  "select_like query db =
     (let pat = [37] @ query @ [37] in
      map cols
        (filter (\<lambda>r. like pat (title (cols r)) \<or> like pat (description (cols r))
                      \<or> like pat (categories (cols r)))
           (blog_posts db)))"

section \<open>The fetch cycle\<close>

text \<open>What the cycle prints, line by line.\<close>

datatype log_event =
    FileNotFound
  | NoFeedUrls
  | StartingFetch
  | FetchingFeed pystr
  | ParseError pystr
  | UpdatedOrAdded pystr
  | DatabaseError
  | CompletedFeed pystr nat
  | FetchComplete nat
  | FetchError exn

record 'k state =
  database :: "'k blog_db"
  tick :: nat
  printed :: "log_event list"

definition print :: "log_event list \<Rightarrow> 'k state \<Rightarrow> 'k state" where
  "print evs s = s\<lparr>printed := printed s @ evs\<rparr>"

text \<open>\<open>read_rss_feed_urls\<close>, on the lines of the file (\<open>None\<close>: there is no file).\<close>

definition read_rss_feed_urls :: "capabilities \<Rightarrow> pystr list option \<Rightarrow> pystr list \<times> log_event list" where
  "read_rss_feed_urls cap file =
     (case file of
        None \<Rightarrow> ([], [FileNotFound])
      | Some lines \<Rightarrow> (map (strip cap) (filter (\<lambda>line. strip cap line \<noteq> []) lines), []))"

text \<open>
  The block under \<open>with db_lock\<close> for one entry. The connection is opened before the
  \<open>try\<close>, so an error there is not caught here; the \<open>except\<close> catches an
  \<open>OperationalError\<close> of the statement and of the commit, and the commit comes
  after the count. Closing the connection drops what was not committed.
\<close>

definition store_post ::
  "'k world \<Rightarrow> pystr post \<Rightarrow> nat \<Rightarrow> 'k state \<Rightarrow> (exn \<times> 'k state) + (nat \<times> 'k state)" where
  "store_post w p new_posts s =
     (let s1 = s\<lparr>tick := tick s + 1\<rparr>;
          (db', rowcount) = upsert w p (database s);
          counted = (if rowcount > 0 then new_posts + 1 else new_posts);
          line = (if rowcount > 0 then [UpdatedOrAdded (title p)] else [])
      in case db_fault w (tick s) of
           ConnectRaises \<Rightarrow> Inl (OperationalError, s1)
         | ExecuteRaises \<Rightarrow> Inr (new_posts, print [DatabaseError] s1)
         | CommitRaises \<Rightarrow> Inr (counted, print (line @ [DatabaseError]) s1)
         | Committed \<Rightarrow> Inr (counted, print line (s1\<lparr>database := db'\<rparr>)))"

fun entries_loop ::
  "capabilities \<Rightarrow> 'k world \<Rightarrow> raw_entry list \<Rightarrow> nat \<Rightarrow> 'k state
     \<Rightarrow> (exn \<times> 'k state) + (nat \<times> 'k state)" where
  "entries_loop cap w [] new_posts s = Inr (new_posts, s)"
| "entries_loop cap w (entry # rest) new_posts s =
     (case extract_feed_entry cap entry of
        Inl e \<Rightarrow> Inl (e, s)
      | Inr p \<Rightarrow>
          (case store_post w p new_posts s of
             Inl raised \<Rightarrow> Inl raised
           | Inr (new_posts', s') \<Rightarrow> entries_loop cap w rest new_posts' s'))"

fun feeds_loop ::
  "capabilities \<Rightarrow> 'k world \<Rightarrow> pystr list \<Rightarrow> nat \<Rightarrow> 'k state
     \<Rightarrow> (exn \<times> 'k state) + (nat \<times> 'k state)" where
  "feeds_loop cap w [] total_new_posts s = Inr (total_new_posts, s)"
| "feeds_loop cap w (feed_url # rest) total_new_posts s =
     (let s1 = print [FetchingFeed feed_url] (s\<lparr>tick := tick s + 1\<rparr>) in
      case parse w (tick s) feed_url of
        Inl e \<Rightarrow> Inl (e, s1)
      | Inr feed \<Rightarrow>
          if bozo feed then feeds_loop cap w rest total_new_posts (print [ParseError feed_url] s1)
          else
            (case entries_loop cap w (entries feed) 0 s1 of
               Inl raised \<Rightarrow> Inl raised
             | Inr (new_posts, s2) \<Rightarrow>
                 feeds_loop cap w rest (total_new_posts + new_posts)
                   (print [CompletedFeed feed_url new_posts] s2)))"

definition fetch_blog_posts ::
  "capabilities \<Rightarrow> 'k world \<Rightarrow> pystr list option \<Rightarrow> 'k state \<Rightarrow> 'k state" where
  "fetch_blog_posts cap w file s =
     (let (rss_feed_urls, lines) = read_rss_feed_urls cap file;
          s0 = print lines s
      in if rss_feed_urls = [] then print [NoFeedUrls] s0
         else
           (case feeds_loop cap w rss_feed_urls 0 (print [StartingFetch] s0) of
              Inl (e, s') \<Rightarrow> print [FetchError e] s'
            | Inr (total_new_posts, s') \<Rightarrow> print [FetchComplete total_new_posts] s'))"

section \<open>The query service\<close>

text \<open>\<open>re.sub(r'[^\w\s]', '', query)\<close>.\<close>

definition sanitize :: "capabilities \<Rightarrow> pystr \<Rightarrow> pystr" where
  "sanitize cap query = filter (\<lambda>c. is_word cap c \<or> is_space cap c) query"

datatype 'k response = Error400 | Json200 "'k post list"

text \<open>\<open>search\<close>, on the value of the request's \<open>query\<close> argument, if it has one.\<close>

definition search :: "capabilities \<Rightarrow> pystr option \<Rightarrow> 'k blog_db \<Rightarrow> 'k response" where
  "search cap arg db =
     (let query = strip cap (get_or arg []) in
      if query = [] \<or> length query > 100 then Error400
      else Json200 (select_like (sanitize cap query) db))"

section \<open>Notions used in the statements\<close>

text \<open>
  A query character against a character of a stored text, as \<open>LIKE\<close> compares them
  when the query holds no \<open>%\<close>; and the query occurring somewhere in a text in
  that sense.
\<close>

definition wild_char :: "nat \<Rightarrow> nat \<Rightarrow> bool" where
  "wild_char p c = (p = 95 \<or> like_char p c)"

definition occurs_like :: "pystr \<Rightarrow> pystr \<Rightarrow> bool" where
  "occurs_like query s = (\<exists>pre mid post. s = pre @ mid @ post \<and> list_all2 wild_char query mid)"

text \<open>The state a loop ends in, whether it returned or raised.\<close>

definition final_state :: "(exn \<times> 'k state) + (nat \<times> 'k state) \<Rightarrow> 'k state" where
  "final_state res = (case res of Inl (e, s) \<Rightarrow> s | Inr (n, s) \<Rightarrow> s)"

text \<open>The table's \<open>UNIQUE\<close> constraint, on the database of a state.\<close>

abbreviation unique_keys :: "'k state \<Rightarrow> bool" where
  "unique_keys s \<equiv> distinct (map row_key (blog_posts (database s)))"

text \<open>The printable ASCII characters: blank to tilde.\<close>

definition printable_ascii :: "nat \<Rightarrow> bool" where
  "printable_ascii c = (32 \<le> c \<and> c \<le> 126)"

text \<open>The per-feed counts among the printed lines.\<close>

fun feed_counts :: "log_event list \<Rightarrow> nat list" where
  "feed_counts [] = []"
| "feed_counts (CompletedFeed url n # evs) = n # feed_counts evs"
| "feed_counts (ev # evs) = feed_counts evs"

text \<open>
  The lines that report a feed, with the URL and the count of each; and, told from
  the outside alone, what they should be for a cycle that starts at moment \<open>t\<close> and
  raises no error: a feed the parser flags has no line, and any other feed has the
  number of its entries whose statement did not raise. A feed takes one moment for
  the parser and one for each of its entries.
\<close>

fun completed_feeds :: "log_event list \<Rightarrow> (pystr \<times> nat) list" where
  "completed_feeds [] = []"
| "completed_feeds (CompletedFeed url n # evs) = (url, n) # completed_feeds evs"
| "completed_feeds (ev # evs) = completed_feeds evs"

definition executed :: "'k world \<Rightarrow> nat \<Rightarrow> nat \<Rightarrow> nat" where
  "executed w t k = length (filter (\<lambda>i. db_fault w (t + i) \<noteq> ExecuteRaises) [0..<k])"

fun executed_counts :: "'k world \<Rightarrow> pystr list \<Rightarrow> nat \<Rightarrow> (pystr \<times> nat) list" where
  "executed_counts w [] t = []"
| "executed_counts w (url # rest) t =
     (case parse w t url of
        Inl e \<Rightarrow> []
      | Inr f \<Rightarrow>
          if bozo f then executed_counts w rest (t + 1)
          else (url, executed w (t + 1) (length (entries f)))
                 # executed_counts w rest (t + 1 + length (entries f)))"

section \<open>Example inputs\<close>

text \<open>
  Capabilities that know no character above 127, score every text as neutral and
  find no entity; an entry with a title, and perhaps a date and tags; the web as a
  table from URLs to what parsing them gives, with an engine that keeps a date as
  the text it is; the state after \<open>init_db\<close>.
\<close>

definition demo_cap :: capabilities where
  "demo_cap =
     \<lparr>uni_alnum = (\<lambda>c. False), uni_space = (\<lambda>c. False), uni_lower = (\<lambda>left c right. [c]),
      polarity = (\<lambda>t. 0), ents = (\<lambda>t. []), dumps = (\<lambda>k. str ''{}'')\<rparr>"

definition demo_entry :: "pystr \<Rightarrow> pystr option \<Rightarrow> tag list option \<Rightarrow> raw_entry" where
  "demo_entry t pub tags =
     \<lparr>e_title = Some t, e_description = None, e_author = None, e_tags = tags,
      e_published = pub, e_link = None\<rparr>"

definition demo_world ::
  "(pystr \<times> (exn + feed)) list \<Rightarrow> (nat \<Rightarrow> db_outcome) \<Rightarrow> pystr world" where
  "demo_world web faults =
     \<lparr>affinity = (\<lambda>s. s), conflict_burn = 1,
      parse = (\<lambda>t url. case map_of web url of None \<Rightarrow> Inl OtherError | Some r \<Rightarrow> r),
      db_fault = faults\<rparr>"

definition demo_post :: "pystr \<Rightarrow> pystr \<Rightarrow> pystr post" where
  "demo_post t pub =
     \<lparr>title = t, description = str ''No Description'', author = str ''Unknown Author'',
      categories = str ''Uncategorized'', sentiment = str ''Neutral'', sector = str ''General'',
      keywords_str = str ''{}'', published_at = pub, link = str ''No Link''\<rparr>"

definition start :: "'k state" where
  "start = \<lparr>database = init_db, tick = 0, printed = []\<rparr>"

text \<open>
  A small web: a feed the parser flags, a feed whose second entry has a tag without
  a term, two sound feeds of one entry each; every other URL makes the parser
  raise. And a store that holds the two sound entries.
\<close>

definition demo_web :: "(pystr \<times> (exn + feed)) list" where
  "demo_web =
     [(str ''broken'', Inr \<lparr>bozo = True, entries = []\<rparr>),
      (str ''tagged'', Inr \<lparr>bozo = False, entries =
         [demo_entry (str ''Alpha Storm'') (Some (str ''2024-01-01'')) None,
          demo_entry (str ''Odd'') None (Some [\<lparr>tag_term = None\<rparr>]),
          demo_entry (str ''Beta'') (Some (str ''2024-01-02'')) None]\<rparr>),
      (str ''alpha'', Inr \<lparr>bozo = False, entries =
         [demo_entry (str ''Alpha Storm'') (Some (str ''2024-01-01'')) None]\<rparr>),
      (str ''beta'', Inr \<lparr>bozo = False, entries =
         [demo_entry (str ''Beta'') (Some (str ''2024-01-02'')) None]\<rparr>)]"

definition demo_db :: "pystr blog_db" where
  "demo_db =
     \<lparr>blog_posts =
        [\<lparr>row_id = 1, cols = demo_post (str ''Alpha Storm'') (str ''2024-01-01'')\<rparr>,
         \<lparr>row_id = 2, cols = demo_post (str ''Beta'') (str ''2024-01-02'')\<rparr>],
      seq = 2\<rparr>"

text \<open>A store whose one record has a NUL in its title.\<close>

definition demo_nul_db :: "pystr blog_db" where
  "demo_nul_db =
     \<lparr>blog_posts =
        [\<lparr>row_id = 1, cols = demo_post ([97, 0] @ str ''storm-nul'') (str ''2024-01-03'')\<rparr>],
      seq = 1\<rparr>"

section \<open>The sector classifier\<close>

lemma lower_from_ascii:
  "list_all (\<lambda>c. c < 128) s \<Longrightarrow> lower_from cap left s = map ascii_lower s"
  by (induction s arbitrary: left) simp_all

text \<open>
  C5. The claim says that the first sector of the table with a trigger occurring in
  the text is returned. The text \<open>Olympics\<close> contains the trigger \<open>Olympics\<close> of
  Sports, as the table writes it, and no trigger of Defense or Government; the
  classifier answers General, because it lower-cases the text and compares it with a
  trigger that has a capital. The same holds for the text the normalizer builds from
  an entry with that title and no description.
\<close>

theorem identify_sector_Olympics:
  "identify_sector cap (str ''Olympics'') = str ''General''
   \<and> identify_sector cap (str ''Olympics'' @ str '' '' @ str ''No Description'') = str ''General''
   \<and> py_in (str ''Olympics'') (str ''Olympics'')"
  by (simp add: identify_sector_def lower_def sectors_def str_def ascii_lower_def)

section \<open>The upsert\<close>

lemma overwrite_key: "row_key (overwrite p r) = row_key r"
  by (simp add: overwrite_def)

lemma overwrite_row_id: "row_id (overwrite p r) = row_id r"
  by (simp add: overwrite_def)

lemma overwrite_cols: "cols (overwrite p r) = stored (row_key r) p"
  by (simp add: overwrite_def stored_def)

lemma filter_key_unique:
  "distinct (map row_key rows) \<Longrightarrow> r \<in> set rows \<Longrightarrow> filter (\<lambda>x. row_key x = row_key r) rows = [r]"
proof (induction rows)
  case Nil
  then show ?case by simp
next
  case (Cons a rows)
  show ?case
  proof (cases "a = r")
    case True
    have "\<forall>x\<in>set rows. row_key x \<noteq> row_key r"
      using Cons.prems(1) True by (fastforce simp: image_iff)
    then have "filter (\<lambda>x. row_key x = row_key r) rows = []"
      by (simp add: filter_empty_conv)
    with True show ?thesis by simp
  next
    case False
    with Cons.prems have r: "r \<in> set rows" by simp
    have "\<forall>x\<in>set rows. row_key x \<noteq> row_key a"
      using Cons.prems(1) by (fastforce simp: image_iff)
    with r have "row_key a \<noteq> row_key r" by fastforce
    moreover have "filter (\<lambda>x. row_key x = row_key r) rows = [r]"
      using Cons.IH Cons.prems(1) r by simp
    ultimately show ?thesis by simp
  qed
qed

lemma filter_key_map_overwrite:
  "filter (\<lambda>x. row_key x = k) (map (\<lambda>r. if row_key r = k then overwrite p r else r) rows)
     = map (overwrite p) (filter (\<lambda>x. row_key x = k) rows)"
  by (induction rows) (simp_all add: overwrite_key)

lemma map_key_map_overwrite:
  "map row_key (map (\<lambda>r. if row_key r = k then overwrite p r else r) rows) = map row_key rows"
  by (induction rows) (simp_all add: overwrite_key)

lemma filter_other_map_overwrite:
  "filter (\<lambda>x. row_key x \<noteq> k) (map (\<lambda>r. if row_key r = k then overwrite p r else r) rows)
     = filter (\<lambda>x. row_key x \<noteq> k) rows"
  by (induction rows) (simp_all add: overwrite_key)

lemma upsert_rowcount: "snd (upsert w p db) = 1"
  by (simp add: upsert_def Let_def)

lemma upsert_distinct:
  assumes "distinct (map row_key (blog_posts db))"
  shows "distinct (map row_key (blog_posts (fst (upsert w p db))))"
proof (cases "list_ex (\<lambda>r. row_key r = affinity w (published_at p)) (blog_posts db)")
  case True
  then have "blog_posts (fst (upsert w p db))
      = map (\<lambda>r. if row_key r = affinity w (published_at p) then overwrite p r else r) (blog_posts db)"
    by (simp add: upsert_def Let_def)
  then show ?thesis using assms by (simp only: map_key_map_overwrite)
next
  case False
  then have rows: "blog_posts (fst (upsert w p db))
      = blog_posts db @ [new_row (seq db + 1) (affinity w (published_at p)) p]"
    by (simp add: upsert_def Let_def)
  have "\<forall>r\<in>set (blog_posts db). row_key r \<noteq> affinity w (published_at p)"
    using False by (simp add: list_ex_iff)
  then have "affinity w (published_at p) \<notin> set (map row_key (blog_posts db))"
    by fastforce
  then show ?thesis using assms by (simp add: rows new_row_def stored_def)
qed

lemma upsert_one_row:
  assumes "distinct (map row_key (blog_posts db))"
  shows "\<exists>r'. filter (\<lambda>r. row_key r = affinity w (published_at p)) (blog_posts (fst (upsert w p db))) = [r']
          \<and> cols r' = stored (affinity w (published_at p)) p
          \<and> (\<forall>r\<in>set (blog_posts db). row_key r = affinity w (published_at p) \<longrightarrow> row_id r' = row_id r)"
proof (cases "list_ex (\<lambda>r. row_key r = affinity w (published_at p)) (blog_posts db)")
  case True
  then obtain r0 where r0: "r0 \<in> set (blog_posts db)" "row_key r0 = affinity w (published_at p)"
    by (auto simp: list_ex_iff)
  have f: "filter (\<lambda>x. row_key x = affinity w (published_at p)) (blog_posts db) = [r0]"
    using filter_key_unique [OF assms r0(1)] r0(2) by simp
  have "filter (\<lambda>r. row_key r = affinity w (published_at p)) (blog_posts (fst (upsert w p db)))
          = [overwrite p r0]"
    using True by (simp add: upsert_def Let_def filter_key_map_overwrite f)
  moreover have "cols (overwrite p r0) = stored (affinity w (published_at p)) p"
    using r0(2) by (simp add: overwrite_cols)
  moreover have "\<forall>r\<in>set (blog_posts db). row_key r = affinity w (published_at p) \<longrightarrow> row_id (overwrite p r0) = row_id r"
  proof (intro ballI impI)
    fix r assume "r \<in> set (blog_posts db)" "row_key r = affinity w (published_at p)"
    then have "r \<in> set (filter (\<lambda>x. row_key x = affinity w (published_at p)) (blog_posts db))" by simp
    with f have "r = r0" by simp
    then show "row_id (overwrite p r0) = row_id r" by (simp add: overwrite_row_id)
  qed
  ultimately show ?thesis by blast
next
  case False
  then have none: "\<forall>r\<in>set (blog_posts db). row_key r \<noteq> affinity w (published_at p)"
    by (auto simp: list_ex_iff)
  then have "filter (\<lambda>r. row_key r = affinity w (published_at p)) (blog_posts db) = []"
    by (auto simp: filter_empty_conv)
  then have "filter (\<lambda>r. row_key r = affinity w (published_at p)) (blog_posts (fst (upsert w p db)))
          = [new_row (seq db + 1) (affinity w (published_at p)) p]"
    using False by (simp add: upsert_def Let_def new_row_def stored_def)
  moreover have "cols (new_row (seq db + 1) (affinity w (published_at p)) p) = stored (affinity w (published_at p)) p"
    by (simp add: new_row_def)
  ultimately show ?thesis using none by blast
qed

lemma upsert_other_rows:
  "filter (\<lambda>r. row_key r \<noteq> affinity w (published_at p)) (blog_posts (fst (upsert w p db)))
     = filter (\<lambda>r. row_key r \<noteq> affinity w (published_at p)) (blog_posts db)"
  by (simp add: upsert_def Let_def filter_other_map_overwrite new_row_def stored_def)

lemma store_post_committed:
  assumes "db_fault w (tick s) = Committed"
  shows "store_post w p n s
           = Inr (n + 1, print [UpdatedOrAdded (title p)]
                           (s\<lparr>tick := tick s + 1, database := fst (upsert w p (database s))\<rparr>))"
proof -
  obtain db' rc where u: "upsert w p (database s) = (db', rc)" by (cases "upsert w p (database s)")
  with upsert_rowcount [of w p "database s"] have "rc = 1" by simp
  with u assms show ?thesis by (simp add: store_post_def Let_def)
qed

text \<open>
  C1. The upsert is keyed by \<open>published_at\<close>. Take any state whose store respects
  the \<open>UNIQUE\<close> constraint of the column, and an entry whose statement and commit
  go through. The upsert step of the cycle returns, and the store it leaves is the
  one the statement makes: exactly one row holds the entry's \<open>published_at\<close> (as the
  column keeps it); that row carries the entry's values in all its other columns,
  and where a row with that key was there before, it is that row, with its id. The
  other rows are as they were, and the constraint still holds. In particular the
  step for a second entry with the same \<open>published_at\<close> leaves one row under the key,
  with the second title and the id the first step gave it.
\<close>

theorem upsert_keyed_by_published_at:
  assumes "unique_keys s" and "db_fault w (tick s) = Committed"
  shows "\<exists>n' s'. store_post w p n s = Inr (n', s')
       \<and> database s' = fst (upsert w p (database s))
       \<and> (\<exists>r'. filter (\<lambda>r. row_key r = affinity w (published_at p)) (blog_posts (database s')) = [r']
            \<and> cols r' = stored (affinity w (published_at p)) p
            \<and> (\<forall>r\<in>set (blog_posts (database s)).
                  row_key r = affinity w (published_at p) \<longrightarrow> row_id r' = row_id r))
       \<and> filter (\<lambda>r. row_key r \<noteq> affinity w (published_at p)) (blog_posts (database s'))
           = filter (\<lambda>r. row_key r \<noteq> affinity w (published_at p)) (blog_posts (database s))
       \<and> unique_keys s'
       \<and> (published_at p2 = published_at p \<and> db_fault w (tick s') = Committed \<longrightarrow>
            (\<exists>n'' s'' r1 r2. store_post w p2 n' s' = Inr (n'', s'')
               \<and> filter (\<lambda>r. row_key r = affinity w (published_at p)) (blog_posts (database s')) = [r1]
               \<and> filter (\<lambda>r. row_key r = affinity w (published_at p)) (blog_posts (database s'')) = [r2]
               \<and> title (cols r2) = title p2 \<and> row_id r2 = row_id r1))"
proof -
  let ?k = "affinity w (published_at p)"
  let ?db1 = "fst (upsert w p (database s))"
  let ?s1 = "print [UpdatedOrAdded (title p)] (s\<lparr>tick := tick s + 1, database := ?db1\<rparr>)"
  have sp: "store_post w p n s = Inr (n + 1, ?s1)"
    using assms(2) by (rule store_post_committed)
  have db1: "database ?s1 = ?db1" by (simp add: print_def)
  have d1: "distinct (map row_key (blog_posts ?db1))"
    using assms(1) by (rule upsert_distinct)
  have one: "\<exists>r'. filter (\<lambda>r. row_key r = ?k) (blog_posts ?db1) = [r']
            \<and> cols r' = stored ?k p
            \<and> (\<forall>r\<in>set (blog_posts (database s)). row_key r = ?k \<longrightarrow> row_id r' = row_id r)"
    using assms(1) by (rule upsert_one_row)
  have others: "filter (\<lambda>r. row_key r \<noteq> ?k) (blog_posts ?db1)
      = filter (\<lambda>r. row_key r \<noteq> ?k) (blog_posts (database s))"
    by (rule upsert_other_rows)
  have two: "\<exists>n'' s'' r1 r2. store_post w p2 (n + 1) ?s1 = Inr (n'', s'')
               \<and> filter (\<lambda>r. row_key r = ?k) (blog_posts ?db1) = [r1]
               \<and> filter (\<lambda>r. row_key r = ?k) (blog_posts (database s'')) = [r2]
               \<and> title (cols r2) = title p2 \<and> row_id r2 = row_id r1"
    if same: "published_at p2 = published_at p" and ok: "db_fault w (tick ?s1) = Committed"
  proof -
    let ?db2 = "fst (upsert w p2 ?db1)"
    let ?s2 = "print [UpdatedOrAdded (title p2)] (?s1\<lparr>tick := tick ?s1 + 1, database := ?db2\<rparr>)"
    have sp2: "store_post w p2 (n + 1) ?s1 = Inr (n + 1 + 1, ?s2)"
      using store_post_committed [OF ok, of p2 "n + 1"] db1 by simp
    have db2: "database ?s2 = ?db2" by (simp add: print_def)
    from one obtain r1 where r1: "filter (\<lambda>r. row_key r = ?k) (blog_posts ?db1) = [r1]" by blast
    from upsert_one_row [OF d1, of w p2] same obtain r2
      where r2: "filter (\<lambda>r. row_key r = ?k) (blog_posts ?db2) = [r2]"
        and c2: "cols r2 = stored ?k p2"
        and i2: "\<forall>r\<in>set (blog_posts ?db1). row_key r = ?k \<longrightarrow> row_id r2 = row_id r"
      by auto
    have "r1 \<in> set (filter (\<lambda>r. row_key r = ?k) (blog_posts ?db1))" using r1 by simp
    then have "r1 \<in> set (blog_posts ?db1)" "row_key r1 = ?k" by simp_all
    with i2 have "row_id r2 = row_id r1" by blast
    moreover have "title (cols r2) = title p2" using c2 by (simp add: stored_def)
    ultimately show ?thesis using sp2 db2 r1 r2 by metis
  qed
  have f3: "\<exists>r'. filter (\<lambda>r. row_key r = ?k) (blog_posts (database ?s1)) = [r']
            \<and> cols r' = stored ?k p
            \<and> (\<forall>r\<in>set (blog_posts (database s)). row_key r = ?k \<longrightarrow> row_id r' = row_id r)"
    using one db1 by simp
  have f4: "filter (\<lambda>r. row_key r \<noteq> ?k) (blog_posts (database ?s1))
           = filter (\<lambda>r. row_key r \<noteq> ?k) (blog_posts (database s))"
    using others db1 by simp
  have f5: "unique_keys ?s1" using d1 db1 by simp
  have f6: "published_at p2 = published_at p \<and> db_fault w (tick ?s1) = Committed \<longrightarrow>
            (\<exists>n'' s'' r1 r2. store_post w p2 (n + 1) ?s1 = Inr (n'', s'')
               \<and> filter (\<lambda>r. row_key r = ?k) (blog_posts (database ?s1)) = [r1]
               \<and> filter (\<lambda>r. row_key r = ?k) (blog_posts (database s'')) = [r2]
               \<and> title (cols r2) = title p2 \<and> row_id r2 = row_id r1)"
    using two db1 by simp
  show ?thesis
    by (rule exI [of _ "n + 1"], rule exI [of _ ?s1]) (intro conjI sp db1 f3 f4 f5 f6)
qed

theorem upsert_keyed_by_published_at_witness:
  "\<exists>n1 s1 n2 s2 r1 r2.
     store_post (demo_world [] (\<lambda>n. Committed)) (demo_post (str ''Alpha'') (str ''Mon, 01 Jan 2024'')) 0 start
       = Inr (n1, s1)
     \<and> store_post (demo_world [] (\<lambda>n. Committed)) (demo_post (str ''Beta'') (str ''Mon, 01 Jan 2024'')) n1 s1
       = Inr (n2, s2)
     \<and> filter (\<lambda>r. row_key r = str ''Mon, 01 Jan 2024'') (blog_posts (database s1)) = [r1]
     \<and> filter (\<lambda>r. row_key r = str ''Mon, 01 Jan 2024'') (blog_posts (database s2)) = [r2]
     \<and> title (cols r2) = str ''Beta'' \<and> row_id r2 = row_id r1"
proof -
  let ?W = "demo_world [] (\<lambda>n. Committed) :: pystr world"
  let ?P1 = "demo_post (str ''Alpha'') (str ''Mon, 01 Jan 2024'')"
  let ?P2 = "demo_post (str ''Beta'') (str ''Mon, 01 Jan 2024'')"
  have u: "unique_keys (start :: pystr state)" by (simp add: start_def init_db_def)
  have c: "db_fault ?W t = Committed" for t by (simp add: demo_world_def)
  have k: "affinity ?W (published_at ?P1) = str ''Mon, 01 Jan 2024''"
    and same: "published_at ?P2 = published_at ?P1"
    and t2: "title ?P2 = str ''Beta''"
    by (simp_all add: demo_world_def demo_post_def)
  from upsert_keyed_by_published_at [OF u c, of ?P1 0 ?P2] c k same t2
  show ?thesis by (simp only: simp_thms) blast
qed

subsection \<open>The constraint holds all along a fetch cycle\<close>






section \<open>The entry normalizer\<close>

lemma tag_terms_all: "map tag_term tags = map Some terms \<Longrightarrow> tag_terms tags = Inr terms"
proof (induction tags arbitrary: terms)
  case Nil
  then show ?case by simp
next
  case (Cons t ts)
  then obtain x xs where terms: "terms = x # xs" by (cases terms) auto
  with Cons.prems have "tag_term t = Some x" "map tag_term ts = map Some xs" by simp_all
  with Cons.IH terms show ?case by simp
qed

text \<open>
  C6, as amended. The stored title and description are the entry's title and
  description (or the sentinels) without the characters above 127: every ASCII
  character stays, the control characters among them, so what is stored is ASCII,
  not printable ASCII.
\<close>

theorem extract_feed_entry_strips_non_ascii:
  assumes "extract_feed_entry cap entry = Inr p"
  shows "title p = filter (\<lambda>c. c \<le> 127) (get_or (e_title entry) (str ''No Title''))
       \<and> description p = filter (\<lambda>c. c \<le> 127) (get_or (e_description entry) (str ''No Description''))
       \<and> (\<forall>c\<in>set (title p). c \<le> 127)
       \<and> (\<forall>c\<in>set (description p). c \<le> 127)"
proof -
  from assms obtain cats where "entry_categories entry = Inr cats"
    by (cases "entry_categories entry") (simp_all add: extract_feed_entry_def Let_def)
  with assms have "title p = strip_non_ascii (get_or (e_title entry) (str ''No Title''))"
    and "description p = strip_non_ascii (get_or (e_description entry) (str ''No Description''))"
    by (auto simp: extract_feed_entry_def Let_def)
  then show ?thesis by (simp add: strip_non_ascii_def)
qed

theorem extract_feed_entry_strips_non_ascii_witness:
  "title (demo_post [72, 9, 105] (str ''Unknown Date'')) = [72, 9, 105]
   \<and> extract_feed_entry demo_cap (demo_entry [72, 9, 233, 105] None None)
       = Inr (demo_post [72, 9, 105] (str ''Unknown Date''))"
  using extract_feed_entry_strips_non_ascii [of demo_cap "demo_entry [72, 9, 233, 105] None None"
      "demo_post [72, 9, 105] (str ''Unknown Date'')"]
  by (simp add: extract_feed_entry_def demo_entry_def demo_post_def demo_cap_def get_or_def
      strip_non_ascii_def entry_categories_def Let_def analyze_sentiment_def extract_keywords_def
      identify_sector_def lower_def sectors_def str_def ascii_lower_def)

text \<open>
  C6 as stated fails: a tab in the title is kept, and it is not printable.
\<close>

theorem control_character_kept_counterexample:
  "map_sum id (\<lambda>p. (title p, list_all printable_ascii (title p)))
     (extract_feed_entry demo_cap (demo_entry [72, 9, 105] None None)) = Inr ([72, 9, 105], False)"
  by (simp add: extract_feed_entry_def demo_entry_def demo_cap_def get_or_def
      strip_non_ascii_def entry_categories_def Let_def printable_ascii_def)

text \<open>
  C7, as amended. An entry without the key \<open>tags\<close> gets the sentinel; an entry with
  the key, all of whose tags carry a term, gets the terms joined with a comma and a
  blank, which is the empty string when the list is empty.
\<close>

theorem categories_of_entry:
  "(e_tags entry = None \<longrightarrow>
      (\<exists>p. extract_feed_entry cap entry = Inr p \<and> categories p = str ''Uncategorized''))
   \<and> (e_tags entry = Some tags \<and> map tag_term tags = map Some terms \<longrightarrow>
      (\<exists>p. extract_feed_entry cap entry = Inr p \<and> categories p = join (str '', '') terms))"
  by (auto simp: extract_feed_entry_def Let_def entry_categories_def tag_terms_all)

theorem categories_of_entry_witness:
  "(\<exists>p. extract_feed_entry demo_cap (demo_entry (str ''A'') None None) = Inr p
        \<and> categories p = str ''Uncategorized'')
   \<and> (\<exists>p. extract_feed_entry demo_cap
             (demo_entry (str ''A'') None (Some [\<lparr>tag_term = Some (str ''x'')\<rparr>, \<lparr>tag_term = Some (str ''y'')\<rparr>])) = Inr p
        \<and> categories p = str ''x, y'')"
  using categories_of_entry [where entry = "demo_entry (str ''A'') None None" and cap = demo_cap]
    categories_of_entry [where entry = "demo_entry (str ''A'') None
          (Some [\<lparr>tag_term = Some (str ''x'')\<rparr>, \<lparr>tag_term = Some (str ''y'')\<rparr>])"
      and tags = "[\<lparr>tag_term = Some (str ''x'')\<rparr>, \<lparr>tag_term = Some (str ''y'')\<rparr>]"
      and terms = "[str ''x'', str ''y'']" and cap = demo_cap]
  by (simp add: demo_entry_def str_def)

text \<open>
  C7 as stated fails: with an empty tag list the categories are the empty string,
  not the sentinel.
\<close>

theorem empty_tag_list_counterexample:
  "map_sum id (\<lambda>p. (categories p, categories p = str ''Uncategorized''))
     (extract_feed_entry demo_cap (demo_entry (str ''A'') None (Some []))) = Inr ([], False)"
  by (simp add: extract_feed_entry_def demo_entry_def demo_cap_def get_or_def
      strip_non_ascii_def entry_categories_def Let_def str_def)

section \<open>Undated entries\<close>




lemmas demo_defs = demo_cap_def demo_entry_def demo_post_def demo_world_def start_def init_db_def
lemmas extract_defs = extract_feed_entry_def get_or_def strip_non_ascii_def entry_categories_def
  Let_def analyze_sentiment_def extract_keywords_def identify_sector_def lower_def sectors_def
  str_def ascii_lower_def
lemmas cycle_defs = fetch_blog_posts_def read_rss_feed_urls_def strip_def is_space_def print_def
  store_post_def upsert_def new_row_def stored_def overwrite_def


section \<open>The search\<close>

lemma pc_all: "pattern_compare [37] s"
  by (induction s) simp_all

lemma pc_all_all: "pattern_compare [37, 37] s"
  by (cases s) (simp_all add: pc_all)

lemma pc_star: "pattern_compare (37 # pat) s \<longleftrightarrow> (\<exists>pre rest. s = pre @ rest \<and> pattern_compare pat rest)"
proof (induction s)
  case Nil
  then show ?case by (cases pat) auto
next
  case (Cons c cs)
  show ?case
  proof
    assume "pattern_compare (37 # pat) (c # cs)"
    then have "pattern_compare pat (c # cs) \<or> pattern_compare (37 # pat) cs" by simp
    then show "\<exists>pre rest. c # cs = pre @ rest \<and> pattern_compare pat rest"
    proof
      assume "pattern_compare pat (c # cs)"
      then have "c # cs = [] @ (c # cs) \<and> pattern_compare pat (c # cs)" by simp
      then show ?thesis by blast
    next
      assume "pattern_compare (37 # pat) cs"
      with Cons obtain pre rest where "cs = pre @ rest" "pattern_compare pat rest" by blast
      then have "c # cs = (c # pre) @ rest \<and> pattern_compare pat rest" by simp
      then show ?thesis by blast
    qed
  next
    assume "\<exists>pre rest. c # cs = pre @ rest \<and> pattern_compare pat rest"
    then obtain pre rest where pr: "c # cs = pre @ rest" "pattern_compare pat rest" by blast
    show "pattern_compare (37 # pat) (c # cs)"
    proof (cases pre)
      case Nil
      with pr have "pattern_compare pat (c # cs)" by simp
      then show ?thesis by simp
    next
      case (Cons a pre')
      with pr have "cs = pre' @ rest" by simp
      with pr(2) Cons.IH have "pattern_compare (37 # pat) cs" by blast
      then show ?thesis by simp
    qed
  qed
qed

lemma pc_tail:
  "37 \<notin> set q \<Longrightarrow> pattern_compare (q @ [37]) s \<longleftrightarrow> (\<exists>mid rest. s = mid @ rest \<and> list_all2 wild_char q mid)"
proof (induction q arbitrary: s)
  case Nil
  then show ?case by (simp add: pc_all)
next
  case (Cons p ps)
  then have p: "p \<noteq> 37" and ps: "37 \<notin> set ps" by auto
  show ?case
  proof (cases s)
    case Nil
    with p show ?thesis by simp
  next
    case (Cons c cs)
    have "pattern_compare ((p # ps) @ [37]) (c # cs) = (wild_char p c \<and> pattern_compare (ps @ [37]) cs)"
      using p by (simp add: wild_char_def)
    also have "\<dots> = (wild_char p c \<and> (\<exists>mid rest. cs = mid @ rest \<and> list_all2 wild_char ps mid))"
      using Cons.IH [OF ps] by simp
    also have "\<dots> = (\<exists>mid rest. c # cs = mid @ rest \<and> list_all2 wild_char (p # ps) mid)"
      by (auto simp: list_all2_Cons1 Cons_eq_append_conv)
    finally show ?thesis using Cons by simp
  qed
qed


lemma c_string_id: "0 \<notin> set s \<Longrightarrow> c_string s = s"
  by (induction s) (simp_all add: c_string_def)

lemma like_between:
  assumes "37 \<notin> set q" and "0 \<notin> set q"
  shows "like ([37] @ q @ [37]) s = occurs_like q (c_string s)"
proof -
  have cs: "c_string ([37] @ q @ [37]) = [37] @ q @ [37]"
    by (rule c_string_id) (use assms(2) in simp)
  have "like ([37] @ q @ [37]) s = pattern_compare ([37] @ q @ [37]) (c_string s)"
    by (simp only: like_def cs)
  also have "\<dots> = (\<exists>pre rest. c_string s = pre @ rest \<and> pattern_compare (q @ [37]) rest)"
    using pc_star [of "q @ [37]" "c_string s"] by simp
  also have "\<dots> = (\<exists>pre rest. c_string s = pre @ rest
                      \<and> (\<exists>mid post. rest = mid @ post \<and> list_all2 wild_char q mid))"
    using pc_tail [OF assms(1)] by simp
  also have "\<dots> = occurs_like q (c_string s)"
    unfolding occurs_like_def by blast
  finally show ?thesis .
qed

lemma like_everything: "like [37, 37] s"
  by (simp add: like_def c_string_def pc_all_all)

lemma sanitize_no_percent: "37 \<notin> set (sanitize cap query)"
  by (simp add: sanitize_def is_word_def is_space_def)

lemma sanitize_no_nul: "0 \<notin> set (sanitize cap query)"
  by (simp add: sanitize_def is_word_def is_space_def)

lemma strip_no_space:
  assumes "\<forall>c\<in>set q. \<not> is_space cap c"
  shows "strip cap q = q"
proof -
  have d: "dropWhile (is_space cap) xs = xs" if "\<forall>c\<in>set xs. \<not> is_space cap c" for xs
    using that by (cases xs) simp_all
  have "dropWhile (is_space cap) (rev q) = rev q" using assms by (intro d) simp
  with d [OF assms] show ?thesis by (simp add: strip_def)
qed

text \<open>
  C8. The search answers 400 exactly when the trimmed query is empty or longer than
  100 characters, whatever the store holds; otherwise it answers with the rows the
  \<open>SELECT\<close> finds for the trimmed query without its characters that are neither
  word characters nor whitespace.
\<close>

theorem search_validates_and_sanitizes:
  "(search cap arg db = Error400)
      = (strip cap (get_or arg []) = [] \<or> 100 < length (strip cap (get_or arg [])))
   \<and> (search cap arg db = Error400 \<longrightarrow> search cap arg db' = Error400)
   \<and> (strip cap (get_or arg []) \<noteq> [] \<and> length (strip cap (get_or arg [])) \<le> 100 \<longrightarrow>
        search cap arg db
          = Json200 (select_like
              (filter (\<lambda>c. is_word cap c \<or> is_space cap c) (strip cap (get_or arg []))) db))"
  by (auto simp: search_def Let_def sanitize_def)

text \<open>
  C9. A query of one to a hundred characters, none of them a word character or
  whitespace, is sanitized to the empty string, and the search returns every row of
  the store.
\<close>

theorem search_punctuation_returns_all:
  assumes "q \<noteq> []" and "length q \<le> 100"
    and "\<forall>c\<in>set q. \<not> is_word cap c \<and> \<not> is_space cap c"
  shows "sanitize cap (strip cap q) = []
       \<and> search cap (Some q) db = Json200 (map cols (blog_posts db))"
proof -
  have s: "strip cap q = q" using assms(3) by (intro strip_no_space) simp
  have e: "sanitize cap q = []" using assms(3) by (simp add: sanitize_def filter_empty_conv)
  have "select_like [] db = map cols (blog_posts db)"
    by (simp add: select_like_def like_everything)
  with s e assms(1,2) show ?thesis by (simp add: search_def Let_def get_or_def)
qed

text \<open>
  C3, as amended. For a query without \<open>%\<close> and without NUL, which every sanitized
  query is, the \<open>SELECT\<close> returns exactly the rows in whose title, description or
  categories the query occurs in the sense of \<open>LIKE\<close>: as a substring up to the case
  of ASCII letters, an underscore of the query standing for any one character, of
  the part of the field that comes before its first NUL (the whole field when it
  holds none). The result is a list, empty when no row matches.
\<close>

theorem search_matches_like:
  "(37 \<notin> set query \<and> 0 \<notin> set query \<longrightarrow>
      select_like query db
        = map cols (filter (\<lambda>r. occurs_like query (c_string (title (cols r)))
                              \<or> occurs_like query (c_string (description (cols r)))
                              \<or> occurs_like query (c_string (categories (cols r)))) (blog_posts db)))
   \<and> 37 \<notin> set (sanitize cap raw)
   \<and> 0 \<notin> set (sanitize cap raw)
   \<and> (strip cap raw \<noteq> [] \<and> length (strip cap raw) \<le> 100 \<longrightarrow>
        search cap (Some raw) db
          = Json200 (map cols (filter
              (\<lambda>r. occurs_like (sanitize cap (strip cap raw)) (c_string (title (cols r)))
                 \<or> occurs_like (sanitize cap (strip cap raw)) (c_string (description (cols r)))
                 \<or> occurs_like (sanitize cap (strip cap raw)) (c_string (categories (cols r))))
              (blog_posts db))))"
proof -
  have a: "select_like q db
        = map cols (filter (\<lambda>r. occurs_like q (c_string (title (cols r)))
                              \<or> occurs_like q (c_string (description (cols r)))
                              \<or> occurs_like q (c_string (categories (cols r)))) (blog_posts db))"
    if "37 \<notin> set q" and "0 \<notin> set q" for q
    using like_between [OF that] by (simp add: select_like_def)
  show ?thesis
    using a [of query] a [OF sanitize_no_percent sanitize_no_nul, of cap "strip cap raw"]
      sanitize_no_percent [of cap raw] sanitize_no_nul [of cap raw]
    by (simp add: search_def Let_def get_or_def)
qed

lemmas demo_defs2 = demo_defs demo_web_def demo_db_def demo_nul_db_def
lemmas query_defs = search_def select_like_def sanitize_def is_word_def is_space_def strip_def
  get_or_def Let_def str_def like_char_def ascii_lower_def like_def c_string_def

theorem search_validates_and_sanitizes_witness:
  "search demo_cap None demo_db = Error400
   \<and> search demo_cap (Some (str ''   '')) demo_db = Error400
   \<and> search demo_cap (Some (replicate 101 97)) demo_db = Error400
   \<and> search demo_cap (Some (str '' Storm! '')) demo_db
       = Json200 [demo_post (str ''Alpha Storm'') (str ''2024-01-01'')]"
proof -
  have "strip demo_cap (replicate 101 97) = replicate 101 97"
    by (rule strip_no_space) (simp add: is_space_def)
  then show ?thesis
    using search_validates_and_sanitizes [of demo_cap None demo_db demo_db]
      search_validates_and_sanitizes [of demo_cap "Some (str ''   '')" demo_db demo_db]
      search_validates_and_sanitizes [of demo_cap "Some (replicate 101 97)" demo_db demo_db]
      search_validates_and_sanitizes [of demo_cap "Some (str '' Storm! '')" demo_db demo_db]
    by (simp add: demo_defs2 query_defs)
qed

theorem search_punctuation_returns_all_witness:
  "sanitize demo_cap (strip demo_cap (str ''!!!'')) = []
   \<and> search demo_cap (Some (str ''!!!'')) demo_db
       = Json200 [demo_post (str ''Alpha Storm'') (str ''2024-01-01''),
                  demo_post (str ''Beta'') (str ''2024-01-02'')]"
  using search_punctuation_returns_all [of "str ''!!!''" demo_cap demo_db]
  by (simp add: demo_defs2 query_defs)

text \<open>
  C3 as stated fails: \<open>storm\<close> is not a substring of any of the three fields of the
  record, and the search returns it.
\<close>

theorem search_ignores_case_counterexample:
  "search demo_cap (Some (str ''storm'')) demo_db
       = Json200 [demo_post (str ''Alpha Storm'') (str ''2024-01-01'')]
   \<and> \<not> py_in (str ''storm'') (title (demo_post (str ''Alpha Storm'') (str ''2024-01-01'')))
   \<and> \<not> py_in (str ''storm'') (description (demo_post (str ''Alpha Storm'') (str ''2024-01-01'')))
   \<and> \<not> py_in (str ''storm'') (categories (demo_post (str ''Alpha Storm'') (str ''2024-01-01'')))"
  by (simp add: demo_defs2 query_defs)

theorem search_matches_like_witness:
  "37 \<notin> set (str ''storm'') \<and> 0 \<notin> set (str ''storm'')
   \<and> search demo_cap (Some (str ''storm'')) demo_db
       = Json200 [demo_post (str ''Alpha Storm'') (str ''2024-01-01'')]
   \<and> map cols (filter (\<lambda>r. occurs_like (str ''storm'') (c_string (title (cols r)))
                              \<or> occurs_like (str ''storm'') (c_string (description (cols r)))
                              \<or> occurs_like (str ''storm'') (c_string (categories (cols r))))
                       (blog_posts demo_db))
       = [demo_post (str ''Alpha Storm'') (str ''2024-01-01'')]
   \<and> search demo_cap (Some (str ''nul'')) demo_nul_db = Json200 []
   \<and> map cols (filter (\<lambda>r. occurs_like (str ''nul'') (c_string (title (cols r)))
                              \<or> occurs_like (str ''nul'') (c_string (description (cols r)))
                              \<or> occurs_like (str ''nul'') (c_string (categories (cols r))))
                       (blog_posts demo_nul_db))
       = []"
proof -
  have e: "search demo_cap (Some (str ''storm'')) demo_db
       = Json200 [demo_post (str ''Alpha Storm'') (str ''2024-01-01'')]"
    by (simp add: demo_defs2 query_defs)
  have s: "sanitize demo_cap (strip demo_cap (str ''storm'')) = str ''storm''"
    by (simp add: demo_defs2 query_defs)
  have n: "strip demo_cap (str ''storm'') \<noteq> [] \<and> length (strip demo_cap (str ''storm'')) \<le> 100"
    by (simp add: demo_defs2 query_defs)
  have e': "search demo_cap (Some (str ''nul'')) demo_nul_db = Json200 []"
    by (simp add: demo_defs2 query_defs)
  have s': "sanitize demo_cap (strip demo_cap (str ''nul'')) = str ''nul''"
    by (simp add: demo_defs2 query_defs)
  have n': "strip demo_cap (str ''nul'') \<noteq> [] \<and> length (strip demo_cap (str ''nul'')) \<le> 100"
    by (simp add: demo_defs2 query_defs)
  have p: "37 \<notin> set (str ''storm'') \<and> 0 \<notin> set (str ''storm'')" by (simp add: str_def)
  from search_matches_like [of "str ''storm''" demo_db demo_cap "str ''storm''"] e s n
    search_matches_like [of "str ''nul''" demo_nul_db demo_cap "str ''nul''"] e' s' n' p
  show ?thesis by simp
qed

section \<open>Failures in a fetch cycle\<close>

lemma entries_loop_append:
  "entries_loop cap w (xs @ ys) n s =
     (case entries_loop cap w xs n s of
        Inl raised \<Rightarrow> Inl raised
      | Inr (n', s') \<Rightarrow> entries_loop cap w ys n' s')"
proof (induction xs arbitrary: n s)
  case Nil
  then show ?case by simp
next
  case (Cons e xs)
  then show ?case
    by (simp split: sum.splits prod.splits)
qed

lemma feeds_loop_append:
  "feeds_loop cap w (xs @ ys) tot s =
     (case feeds_loop cap w xs tot s of
        Inl raised \<Rightarrow> Inl raised
      | Inr (t', s') \<Rightarrow> feeds_loop cap w ys t' s')"
proof (induction xs arbitrary: tot s)
  case Nil
  then show ?case by simp
next
  case (Cons u xs)
  then show ?case
    by (simp add: Let_def split: sum.splits prod.splits)
qed

text \<open>
  C2, as amended. A feed the parser flags is skipped and the cycle goes on with the
  next URL; an entry whose statement raises a storage error is skipped and the feed
  goes on with the next entry; both are printed. An error raised by the parser, or
  by the normalization of an entry, is not confined to its feed or entry: the iterations
  stop there, whatever URLs and entries remain, and the cycle ends by printing the
  one error, in the state it had reached.
\<close>

theorem fetch_cycle_failures:
  "(feeds_loop cap w pre_urls tot s = Inr (t1, s1) \<and> parse w (tick s1) url = Inr f \<and> bozo f \<longrightarrow>
      feeds_loop cap w (pre_urls @ url # rest) tot s
        = feeds_loop cap w rest t1
            (print [ParseError url] (print [FetchingFeed url] (s1\<lparr>tick := tick s1 + 1\<rparr>))))
   \<and> (entries_loop cap w pre_entries n0 s = Inr (n, s2) \<and> extract_feed_entry cap entry = Inr p
        \<and> db_fault w (tick s2) = ExecuteRaises \<longrightarrow>
      entries_loop cap w (pre_entries @ entry # remaining) n0 s
        = entries_loop cap w remaining n (print [DatabaseError] (s2\<lparr>tick := tick s2 + 1\<rparr>)))
   \<and> (feeds_loop cap w pre_urls tot s = Inr (t1, s1) \<and> parse w (tick s1) url = Inl x \<longrightarrow>
      feeds_loop cap w (pre_urls @ url # rest) tot s
        = Inl (x, print [FetchingFeed url] (s1\<lparr>tick := tick s1 + 1\<rparr>)))
   \<and> (feeds_loop cap w pre_urls tot s = Inr (t1, s1) \<and> parse w (tick s1) url = Inr f \<and> \<not> bozo f
        \<and> entries f = pre_entries @ entry # remaining
        \<and> entries_loop cap w pre_entries 0 (print [FetchingFeed url] (s1\<lparr>tick := tick s1 + 1\<rparr>))
            = Inr (n, s2)
        \<and> extract_feed_entry cap entry = Inl x \<longrightarrow>
      feeds_loop cap w (pre_urls @ url # rest) tot s = Inl (x, s2))
   \<and> (read_rss_feed_urls cap rss = (urls, evs) \<and> urls \<noteq> []
        \<and> feeds_loop cap w urls 0 (print [StartingFetch] (print evs s)) = Inl (x, s3) \<longrightarrow>
      fetch_blog_posts cap w rss s = print [FetchError x] s3)"
proof (intro conjI impI)
  assume "feeds_loop cap w pre_urls tot s = Inr (t1, s1) \<and> parse w (tick s1) url = Inr f \<and> bozo f"
  then show "feeds_loop cap w (pre_urls @ url # rest) tot s
        = feeds_loop cap w rest t1
            (print [ParseError url] (print [FetchingFeed url] (s1\<lparr>tick := tick s1 + 1\<rparr>)))"
    by (simp add: feeds_loop_append Let_def)
next
  assume "entries_loop cap w pre_entries n0 s = Inr (n, s2) \<and> extract_feed_entry cap entry = Inr p
        \<and> db_fault w (tick s2) = ExecuteRaises"
  then show "entries_loop cap w (pre_entries @ entry # remaining) n0 s
        = entries_loop cap w remaining n (print [DatabaseError] (s2\<lparr>tick := tick s2 + 1\<rparr>))"
    by (simp add: entries_loop_append store_post_def Let_def split: prod.splits)
next
  assume "feeds_loop cap w pre_urls tot s = Inr (t1, s1) \<and> parse w (tick s1) url = Inl x"
  then show "feeds_loop cap w (pre_urls @ url # rest) tot s
        = Inl (x, print [FetchingFeed url] (s1\<lparr>tick := tick s1 + 1\<rparr>))"
    by (simp add: feeds_loop_append Let_def)
next
  assume a: "feeds_loop cap w pre_urls tot s = Inr (t1, s1) \<and> parse w (tick s1) url = Inr f \<and> \<not> bozo f
        \<and> entries f = pre_entries @ entry # remaining
        \<and> entries_loop cap w pre_entries 0 (print [FetchingFeed url] (s1\<lparr>tick := tick s1 + 1\<rparr>))
            = Inr (n, s2)
        \<and> extract_feed_entry cap entry = Inl x"
  then have "entries_loop cap w (entries f) 0 (print [FetchingFeed url] (s1\<lparr>tick := tick s1 + 1\<rparr>))
      = Inl (x, s2)"
    by (simp add: entries_loop_append)
  with a show "feeds_loop cap w (pre_urls @ url # rest) tot s = Inl (x, s2)"
    by (simp add: feeds_loop_append Let_def)
next
  assume "read_rss_feed_urls cap rss = (urls, evs) \<and> urls \<noteq> []
        \<and> feeds_loop cap w urls 0 (print [StartingFetch] (print evs s)) = Inl (x, s3)"
  then show "fetch_blog_posts cap w rss s = print [FetchError x] s3"
    by (simp add: fetch_blog_posts_def)
qed

text \<open>
  C2 as stated fails: the second entry of the first feed has a tag without a term;
  the cycle ends there, and neither the third entry nor the second feed, which alone
  would store its entry, is processed.
\<close>

theorem entry_error_ends_cycle_counterexample:
  "printed (fetch_blog_posts demo_cap (demo_world demo_web (\<lambda>n. Committed))
              (Some [str ''tagged'', str ''beta'']) start)
     = [StartingFetch, FetchingFeed (str ''tagged''), UpdatedOrAdded (str ''Alpha Storm''),
        FetchError TypeError]
   \<and> blog_posts (database (fetch_blog_posts demo_cap (demo_world demo_web (\<lambda>n. Committed))
              (Some [str ''tagged'', str ''beta'']) start))
     = [\<lparr>row_id = 1, cols = demo_post (str ''Alpha Storm'') (str ''2024-01-01'')\<rparr>]
   \<and> blog_posts (database (fetch_blog_posts demo_cap (demo_world demo_web (\<lambda>n. Committed))
              (Some [str ''beta'']) start))
     = [\<lparr>row_id = 1, cols = demo_post (str ''Beta'') (str ''2024-01-02'')\<rparr>]"
  by (simp add: demo_defs2 extract_defs cycle_defs)

theorem fetch_cycle_failures_witness:
  "feeds_loop demo_cap (demo_world demo_web (\<lambda>n. Committed)) ([] @ str ''broken'' # [str ''beta'']) 0 start
     = feeds_loop demo_cap (demo_world demo_web (\<lambda>n. Committed)) [str ''beta''] 0
         (print [ParseError (str ''broken'')] (print [FetchingFeed (str ''broken'')] (start\<lparr>tick := tick start + 1\<rparr>)))
   \<and> entries_loop demo_cap (demo_world demo_web (\<lambda>n. ExecuteRaises))
        ([] @ demo_entry (str ''Alpha Storm'') (Some (str ''2024-01-01'')) None
            # [demo_entry (str ''Beta'') (Some (str ''2024-01-02'')) None]) 0 start
     = entries_loop demo_cap (demo_world demo_web (\<lambda>n. ExecuteRaises))
        [demo_entry (str ''Beta'') (Some (str ''2024-01-02'')) None] 0
        (print [DatabaseError] (start\<lparr>tick := tick start + 1\<rparr>))
   \<and> feeds_loop demo_cap (demo_world demo_web (\<lambda>n. Committed)) ([] @ str ''down'' # [str ''beta'']) 0 start
     = Inl (OtherError, print [FetchingFeed (str ''down'')] (start\<lparr>tick := tick start + 1\<rparr>))
   \<and> feeds_loop demo_cap (demo_world demo_web (\<lambda>n. Committed)) ([] @ str ''tagged'' # [str ''beta'']) 0 start
     = Inl (TypeError,
         final_state (entries_loop demo_cap (demo_world demo_web (\<lambda>n. Committed))
           [demo_entry (str ''Alpha Storm'') (Some (str ''2024-01-01'')) None] 0
           (print [FetchingFeed (str ''tagged'')] (start\<lparr>tick := tick start + 1\<rparr>))))
   \<and> fetch_blog_posts demo_cap (demo_world demo_web (\<lambda>n. Committed)) (Some [str ''down'']) start
     = print [FetchError OtherError] (print [FetchingFeed (str ''down'')] (print [StartingFetch] (start\<lparr>tick := 1\<rparr>)))"
proof -
  let ?W = "demo_world demo_web (\<lambda>n. Committed)"
  let ?alpha = "demo_entry (str ''Alpha Storm'') (Some (str ''2024-01-01'')) None"
  let ?beta = "demo_entry (str ''Beta'') (Some (str ''2024-01-02'')) None"
  let ?odd = "demo_entry (str ''Odd'') None (Some [\<lparr>tag_term = None\<rparr>])"
  have 1: "feeds_loop demo_cap ?W ([] @ str ''broken'' # [str ''beta'']) 0 start
     = feeds_loop demo_cap ?W [str ''beta''] 0
         (print [ParseError (str ''broken'')] (print [FetchingFeed (str ''broken'')] (start\<lparr>tick := tick start + 1\<rparr>)))"
    using fetch_cycle_failures [where cap = demo_cap and w = ?W and pre_urls = "[]" and tot = 0
        and s = start and ?t1.0 = 0 and ?s1.0 = start and url = "str ''broken''"
        and f = "\<lparr>bozo = True, entries = []\<rparr>" and rest = "[str ''beta'']"]
    by (simp add: demo_defs2 str_def)
  have 2: "entries_loop demo_cap (demo_world demo_web (\<lambda>n. ExecuteRaises)) ([] @ ?alpha # [?beta]) 0 start
     = entries_loop demo_cap (demo_world demo_web (\<lambda>n. ExecuteRaises)) [?beta] 0
        (print [DatabaseError] (start\<lparr>tick := tick start + 1\<rparr>))"
    using fetch_cycle_failures [where cap = demo_cap and w = "demo_world demo_web (\<lambda>n. ExecuteRaises)"
        and pre_entries = "[]" and ?n0.0 = 0 and s = start and n = 0 and ?s2.0 = start
        and entry = ?alpha and p = "demo_post (str ''Alpha Storm'') (str ''2024-01-01'')"
        and remaining = "[?beta]"]
    by (simp add: demo_defs2 extract_defs)
  have 3: "feeds_loop demo_cap ?W ([] @ str ''down'' # [str ''beta'']) 0 start
     = Inl (OtherError, print [FetchingFeed (str ''down'')] (start\<lparr>tick := tick start + 1\<rparr>))"
    using fetch_cycle_failures [where cap = demo_cap and w = ?W and pre_urls = "[]" and tot = 0
        and s = start and ?t1.0 = 0 and ?s1.0 = start and url = "str ''down''" and x = OtherError
        and rest = "[str ''beta'']"]
    by (simp add: demo_defs2 str_def)
  have 4: "feeds_loop demo_cap ?W ([] @ str ''tagged'' # [str ''beta'']) 0 start
     = Inl (TypeError,
         final_state (entries_loop demo_cap ?W [?alpha] 0
           (print [FetchingFeed (str ''tagged'')] (start\<lparr>tick := tick start + 1\<rparr>))))"
    using fetch_cycle_failures [where cap = demo_cap and w = ?W and pre_urls = "[]" and tot = 0
        and s = start and ?t1.0 = 0 and ?s1.0 = start and url = "str ''tagged''"
        and f = "\<lparr>bozo = False, entries = [?alpha, ?odd, ?beta]\<rparr>"
        and pre_entries = "[?alpha]" and entry = ?odd and remaining = "[?beta]" and n = 1
        and ?s2.0 = "final_state (entries_loop demo_cap ?W [?alpha] 0
           (print [FetchingFeed (str ''tagged'')] (start\<lparr>tick := tick start + 1\<rparr>)))"
        and x = TypeError and rest = "[str ''beta'']"]
    by (simp add: demo_defs2 extract_defs cycle_defs final_state_def)
  have 5: "fetch_blog_posts demo_cap ?W (Some [str ''down'']) start
     = print [FetchError OtherError] (print [FetchingFeed (str ''down'')] (print [StartingFetch] (start\<lparr>tick := 1\<rparr>)))"
    using fetch_cycle_failures [where cap = demo_cap and w = ?W and rss = "Some [str ''down'']"
        and urls = "[str ''down'']" and evs = "[]" and s = start and x = OtherError
        and ?s3.0 = "print [FetchingFeed (str ''down'')] (print [StartingFetch] (start\<lparr>tick := 1\<rparr>))"]
    by (simp add: demo_defs2 extract_defs cycle_defs)
  from 1 2 3 4 5 show ?thesis by blast
qed


section \<open>Counts\<close>

lemma feed_counts_append: "feed_counts (xs @ ys) = feed_counts xs @ feed_counts ys"
  by (induction xs rule: feed_counts.induct) simp_all

lemma completed_feeds_append:
  "completed_feeds (xs @ ys) = completed_feeds xs @ completed_feeds ys"
  by (induction xs rule: completed_feeds.induct) simp_all

lemma store_post_Inr:
  assumes "store_post w p n s = Inr (n', s')"
  shows "tick s' = tick s + 1"
    and "n' = n + (if db_fault w (tick s) \<noteq> ExecuteRaises then 1 else 0)"
    and "feed_counts (printed s') = feed_counts (printed s)"
    and "completed_feeds (printed s') = completed_feeds (printed s)"
proof -
  obtain db' rc where u: "upsert w p (database s) = (db', rc)" by (cases "upsert w p (database s)")
  with upsert_rowcount [of w p "database s"] have rc: "rc = 1" by simp
  from assms u rc show "tick s' = tick s + 1"
    by (cases "db_fault w (tick s)") (auto simp: store_post_def Let_def print_def)
  from assms u rc show "n' = n + (if db_fault w (tick s) \<noteq> ExecuteRaises then 1 else 0)"
    by (cases "db_fault w (tick s)") (auto simp: store_post_def Let_def print_def)
  from assms u rc show "feed_counts (printed s') = feed_counts (printed s)"
    by (cases "db_fault w (tick s)") (auto simp: store_post_def Let_def print_def feed_counts_append)
  from assms u rc show "completed_feeds (printed s') = completed_feeds (printed s)"
    by (cases "db_fault w (tick s)")
      (auto simp: store_post_def Let_def print_def completed_feeds_append)
qed

lemma count_shift:
  "length (filter P [0..<Suc k]) = (if P 0 then 1 else 0) + length (filter (\<lambda>i. P (Suc i)) [0..<k])"
proof -
  have "[0..<Suc k] = 0 # [Suc 0..<Suc k]"
    by (rule upt_conv_Cons) simp
  also have "[Suc 0..<Suc k] = map Suc [0..<k]"
    by (simp only: map_Suc_upt)
  finally have "[0..<Suc k] = 0 # map Suc [0..<k]" .
  then have "filter P [0..<Suc k] = (if P 0 then [0] else []) @ filter P (map Suc [0..<k])"
    by simp
  then show ?thesis by (simp add: filter_map comp_def)
qed

lemma entries_loop_Inr:
  "entries_loop cap w es n s = Inr (m, s') \<Longrightarrow>
     m = n + length (filter (\<lambda>i. db_fault w (tick s + i) \<noteq> ExecuteRaises) [0..<length es])
     \<and> tick s' = tick s + length es
     \<and> feed_counts (printed s') = feed_counts (printed s)
     \<and> completed_feeds (printed s') = completed_feeds (printed s)"
proof (induction es arbitrary: n s)
  case Nil
  then show ?case by simp
next
  case (Cons e es)
  from Cons.prems obtain p where p: "extract_feed_entry cap e = Inr p"
    by (cases "extract_feed_entry cap e") simp_all
  with Cons.prems obtain n1 s1 where sp: "store_post w p n s = Inr (n1, s1)"
    and rest: "entries_loop cap w es n1 s1 = Inr (m, s')"
    by (cases "store_post w p n s") auto
  note st = store_post_Inr [OF sp]
  from Cons.IH [OF rest] st
  have m: "m = n + (if db_fault w (tick s) \<noteq> ExecuteRaises then 1 else 0)
              + length (filter (\<lambda>i. db_fault w (tick s + Suc i) \<noteq> ExecuteRaises) [0..<length es])"
    and t: "tick s' = tick s + length (e # es)"
    and f: "feed_counts (printed s') = feed_counts (printed s)"
    and g: "completed_feeds (printed s') = completed_feeds (printed s)"
    by simp_all
  have "length (filter (\<lambda>i. db_fault w (tick s + i) \<noteq> ExecuteRaises) [0..<length (e # es)])
      = (if db_fault w (tick s) \<noteq> ExecuteRaises then 1 else 0)
          + length (filter (\<lambda>i. db_fault w (tick s + Suc i) \<noteq> ExecuteRaises) [0..<length es])"
    using count_shift [of "\<lambda>i. db_fault w (tick s + i) \<noteq> ExecuteRaises" "length es"] by simp
  with m t f g show ?case by simp
qed

lemma feeds_loop_Inr:
  "feeds_loop cap w urls tot s = Inr (t', s') \<Longrightarrow>
     t' + sum_list (feed_counts (printed s)) = tot + sum_list (feed_counts (printed s'))"
proof (induction urls arbitrary: tot s)
  case Nil
  then show ?case by simp
next
  case (Cons u urls)
  let ?s1 = "print [FetchingFeed u] (s\<lparr>tick := tick s + 1\<rparr>)"
  have c1: "feed_counts (printed ?s1) = feed_counts (printed s)"
    by (simp add: print_def feed_counts_append)
  from Cons.prems obtain f where f: "parse w (tick s) u = Inr f"
    by (cases "parse w (tick s) u") (simp_all add: Let_def)
  show ?case
  proof (cases "bozo f")
    case True
    with Cons.prems f have "feeds_loop cap w urls tot (print [ParseError u] ?s1) = Inr (t', s')"
      by (simp add: Let_def)
    from Cons.IH [OF this] c1 show ?thesis by (simp add: print_def feed_counts_append)
  next
    case False
    with Cons.prems f obtain m s2 where el: "entries_loop cap w (entries f) 0 ?s1 = Inr (m, s2)"
      and rest: "feeds_loop cap w urls (tot + m) (print [CompletedFeed u m] s2) = Inr (t', s')"
      by (cases "entries_loop cap w (entries f) 0 ?s1") (auto simp: Let_def)
    from entries_loop_Inr [OF el] c1 have "feed_counts (printed s2) = feed_counts (printed s)" by simp
    with Cons.IH [OF rest] show ?thesis by (simp add: print_def feed_counts_append)
  qed
qed


lemma feeds_loop_lines:
  "feeds_loop cap w urls tot s = Inr (t', s') \<Longrightarrow>
     completed_feeds (printed s') = completed_feeds (printed s) @ executed_counts w urls (tick s)
     \<and> t' = tot + sum_list (map snd (executed_counts w urls (tick s)))"
proof (induction urls arbitrary: tot s)
  case Nil
  then show ?case by simp
next
  case (Cons u urls)
  let ?s1 = "print [FetchingFeed u] (s\<lparr>tick := tick s + 1\<rparr>)"
  have c1: "completed_feeds (printed ?s1) = completed_feeds (printed s)"
    and t1: "tick ?s1 = tick s + 1"
    by (simp_all add: print_def completed_feeds_append)
  from Cons.prems obtain f where f: "parse w (tick s) u = Inr f"
    by (cases "parse w (tick s) u") (simp_all add: Let_def)
  show ?case
  proof (cases "bozo f")
    case True
    let ?s2 = "print [ParseError u] ?s1"
    from True Cons.prems f have "feeds_loop cap w urls tot ?s2 = Inr (t', s')"
      by (simp add: Let_def)
    from Cons.IH [OF this]
    have "completed_feeds (printed s')
            = completed_feeds (printed ?s2) @ executed_counts w urls (tick ?s2)"
      and "t' = tot + sum_list (map snd (executed_counts w urls (tick ?s2)))"
      by simp_all
    moreover have "completed_feeds (printed ?s2) = completed_feeds (printed s)"
      and "tick ?s2 = tick s + 1"
      by (simp_all add: print_def completed_feeds_append)
    ultimately show ?thesis using f True by simp
  next
    case False
    with Cons.prems f obtain m s2 where el: "entries_loop cap w (entries f) 0 ?s1 = Inr (m, s2)"
      and rest: "feeds_loop cap w urls (tot + m) (print [CompletedFeed u m] s2) = Inr (t', s')"
      by (cases "entries_loop cap w (entries f) 0 ?s1") (auto simp: Let_def)
    let ?s3 = "print [CompletedFeed u m] s2"
    from entries_loop_Inr [OF el] c1 t1
    have m: "m = executed w (tick s + 1) (length (entries f))"
      and t2: "tick s2 = tick s + 1 + length (entries f)"
      and c2: "completed_feeds (printed s2) = completed_feeds (printed s)"
      by (simp_all add: executed_def)
    from Cons.IH [OF rest]
    have "completed_feeds (printed s')
            = completed_feeds (printed ?s3) @ executed_counts w urls (tick ?s3)"
      and "t' = tot + m + sum_list (map snd (executed_counts w urls (tick ?s3)))"
      by simp_all
    moreover have "completed_feeds (printed ?s3) = completed_feeds (printed s) @ [(u, m)]"
      and "tick ?s3 = tick s + 1 + length (entries f)"
      using c2 t2 by (simp_all add: print_def completed_feeds_append)
    ultimately show ?thesis using f False m by simp
  qed
qed

lemma fetch_blog_posts_lines:
  assumes "read_rss_feed_urls cap rss = (urls, evs)" and "urls \<noteq> []"
    and "feeds_loop cap w urls 0 (print [StartingFetch] (print evs s)) = Inr (t', s')"
  shows "fetch_blog_posts cap w rss s = print [FetchComplete t'] s'"
    and "completed_feeds (printed (fetch_blog_posts cap w rss s))
           = completed_feeds (printed s) @ executed_counts w urls (tick s)"
    and "t' = sum_list (map snd (executed_counts w urls (tick s)))"
proof -
  show r: "fetch_blog_posts cap w rss s = print [FetchComplete t'] s'"
    using assms by (simp add: fetch_blog_posts_def)
  have evs: "completed_feeds evs = []"
    using assms(1) by (cases rss) (auto simp: read_rss_feed_urls_def)
  let ?s0 = "print [StartingFetch] (print evs s)"
  have "completed_feeds (printed ?s0) = completed_feeds (printed s)" and "tick ?s0 = tick s"
    using evs by (simp_all add: print_def completed_feeds_append)
  with feeds_loop_lines [OF assms(3)]
  have l: "completed_feeds (printed s') = completed_feeds (printed s) @ executed_counts w urls (tick s)"
    and "t' = sum_list (map snd (executed_counts w urls (tick s)))"
    by simp_all
  then show "t' = sum_list (map snd (executed_counts w urls (tick s)))" by simp
  show "completed_feeds (printed (fetch_blog_posts cap w rss s))
           = completed_feeds (printed s) @ executed_counts w urls (tick s)"
    using l by (simp add: r print_def completed_feeds_append)
qed

text \<open>
  C4, as amended. The statement always reports one row. The count of a feed is the
  number of its entries whose statement was executed, that is all but those whose
  statement raised a storage error: this is the number the loop over the entries
  returns and the number printed for the feed, feed by feed in the order of the
  URLs. The total is the sum of these numbers, and it is the total the cycle
  prints at its end.
\<close>

theorem fetch_counts_executed_upserts:
  "snd (upsert w p db) = 1
   \<and> (entries_loop cap w es n s = Inr (m, s') \<longrightarrow>
        m = n + length (filter (\<lambda>i. db_fault w (tick s + i) \<noteq> ExecuteRaises) [0..<length es]))
   \<and> (feeds_loop cap w urls tot s = Inr (t', s') \<longrightarrow>
        t' + sum_list (feed_counts (printed s)) = tot + sum_list (feed_counts (printed s'))
        \<and> completed_feeds (printed s') = completed_feeds (printed s) @ executed_counts w urls (tick s)
        \<and> t' = tot + sum_list (map snd (executed_counts w urls (tick s))))
   \<and> (read_rss_feed_urls cap rss = (urls, evs) \<and> urls \<noteq> []
        \<and> feeds_loop cap w urls 0 (print [StartingFetch] (print evs s)) = Inr (t', s') \<longrightarrow>
        fetch_blog_posts cap w rss s = print [FetchComplete t'] s'
        \<and> completed_feeds (printed (fetch_blog_posts cap w rss s))
             = completed_feeds (printed s) @ executed_counts w urls (tick s)
        \<and> t' = sum_list (map snd (executed_counts w urls (tick s))))"
proof (intro conjI impI)
  show "snd (upsert w p db) = 1" by (rule upsert_rowcount)
next
  assume "entries_loop cap w es n s = Inr (m, s')"
  from entries_loop_Inr [OF this]
  show "m = n + length (filter (\<lambda>i. db_fault w (tick s + i) \<noteq> ExecuteRaises) [0..<length es])"
    by simp
next
  assume a: "feeds_loop cap w urls tot s = Inr (t', s')"
  from feeds_loop_Inr [OF a]
  show "t' + sum_list (feed_counts (printed s)) = tot + sum_list (feed_counts (printed s'))" .
  from feeds_loop_lines [OF a]
  show "completed_feeds (printed s') = completed_feeds (printed s) @ executed_counts w urls (tick s)"
    and "t' = tot + sum_list (map snd (executed_counts w urls (tick s)))"
    by simp_all
next
  assume a: "read_rss_feed_urls cap rss = (urls, evs) \<and> urls \<noteq> []
        \<and> feeds_loop cap w urls 0 (print [StartingFetch] (print evs s)) = Inr (t', s')"
  then have 1: "read_rss_feed_urls cap rss = (urls, evs)" and 2: "urls \<noteq> []"
    and 3: "feeds_loop cap w urls 0 (print [StartingFetch] (print evs s)) = Inr (t', s')"
    by simp_all
  from fetch_blog_posts_lines [OF 1 2 3]
  show "fetch_blog_posts cap w rss s = print [FetchComplete t'] s'"
    and "completed_feeds (printed (fetch_blog_posts cap w rss s))
             = completed_feeds (printed s) @ executed_counts w urls (tick s)"
    and "t' = sum_list (map snd (executed_counts w urls (tick s)))"
    by simp_all
qed

text \<open>
  C4 as stated fails: the store already holds the entry of the feed with the very
  same values; after the cycle the rows are what they were, and the entry is counted
  for the feed and in the total.
\<close>

theorem unchanged_upsert_counted_counterexample:
  "blog_posts (database (fetch_blog_posts demo_cap (demo_world demo_web (\<lambda>n. Committed))
              (Some [str ''alpha'']) (start\<lparr>database := demo_db\<rparr>)))
     = blog_posts demo_db
   \<and> printed (fetch_blog_posts demo_cap (demo_world demo_web (\<lambda>n. Committed))
              (Some [str ''alpha'']) (start\<lparr>database := demo_db\<rparr>))
     = [StartingFetch, FetchingFeed (str ''alpha''), UpdatedOrAdded (str ''Alpha Storm''),
        CompletedFeed (str ''alpha'') 1, FetchComplete 1]"
  by (simp add: demo_defs2 extract_defs cycle_defs)


theorem fetch_counts_executed_upserts_witness:
  "snd (upsert (demo_world demo_web (\<lambda>n. Committed))
       (demo_post (str ''Alpha Storm'') (str ''2024-01-01'')) demo_db) = 1
   \<and> map_sum id fst (entries_loop demo_cap (demo_world demo_web (\<lambda>n. if n = 0 then ExecuteRaises else Committed))
        [demo_entry (str ''Alpha Storm'') (Some (str ''2024-01-01'')) None,
         demo_entry (str ''Alpha Storm'') (Some (str ''2024-01-01'')) None,
         demo_entry (str ''Beta'') (Some (str ''2024-01-02'')) None] 0
        (start\<lparr>database := demo_db\<rparr>)) = Inr 2
   \<and> map_sum id fst (feeds_loop demo_cap (demo_world demo_web (\<lambda>n. Committed))
        [str ''alpha'', str ''broken'', str ''beta''] 0 (start\<lparr>database := demo_db\<rparr>)) = Inr 2
   \<and> feed_counts (printed (final_state (feeds_loop demo_cap (demo_world demo_web (\<lambda>n. Committed))
        [str ''alpha'', str ''broken'', str ''beta''] 0 (start\<lparr>database := demo_db\<rparr>)))) = [1, 1]
   \<and> executed_counts (demo_world demo_web (\<lambda>n. Committed))
        [str ''alpha'', str ''broken'', str ''beta''] 0
       = [(str ''alpha'', 1), (str ''beta'', 1)]
   \<and> completed_feeds (printed (fetch_blog_posts demo_cap (demo_world demo_web (\<lambda>n. Committed))
        (Some [str ''alpha'', str ''broken'', str ''beta'']) (start\<lparr>database := demo_db\<rparr>)))
       = [(str ''alpha'', 1), (str ''beta'', 1)]
   \<and> last (printed (fetch_blog_posts demo_cap (demo_world demo_web (\<lambda>n. Committed))
        (Some [str ''alpha'', str ''broken'', str ''beta'']) (start\<lparr>database := demo_db\<rparr>)))
       = FetchComplete 2"
proof -
  let ?W = "demo_world demo_web (\<lambda>n. Committed)"
  let ?W' = "demo_world demo_web (\<lambda>n. if n = 0 then ExecuteRaises else Committed)"
  let ?alpha = "demo_entry (str ''Alpha Storm'') (Some (str ''2024-01-01'')) None"
  let ?beta = "demo_entry (str ''Beta'') (Some (str ''2024-01-02'')) None"
  let ?s = "start\<lparr>database := demo_db\<rparr> :: pystr state"
  let ?urls = "[str ''alpha'', str ''broken'', str ''beta'']"
  have e: "map_sum id fst (entries_loop demo_cap ?W' [?alpha, ?alpha, ?beta] 0 ?s) = Inr 2"
    by (simp add: demo_defs2 extract_defs cycle_defs)
  have f: "map_sum id fst (feeds_loop demo_cap ?W ?urls 0 ?s) = Inr 2"
    by (simp add: demo_defs2 extract_defs cycle_defs)
  have c: "feed_counts (printed (final_state (feeds_loop demo_cap ?W ?urls 0 ?s))) = [1, 1]"
    by (simp add: demo_defs2 extract_defs cycle_defs final_state_def)
  have x: "executed_counts ?W ?urls 0 = [(str ''alpha'', 1), (str ''beta'', 1)]"
    by (simp add: demo_defs2 demo_entry_def executed_def str_def)
  have ne: "?urls \<noteq> []" by simp
  have r: "read_rss_feed_urls demo_cap (Some ?urls) = (?urls, [])"
    by (simp add: demo_defs2 cycle_defs str_def)
  have g: "map_sum id fst (feeds_loop demo_cap ?W ?urls 0 (print [StartingFetch] (print [] ?s))) = Inr 2"
    by (simp add: demo_defs2 extract_defs cycle_defs)
  from e obtain s1 where e1: "entries_loop demo_cap ?W' [?alpha, ?alpha, ?beta] 0 ?s = Inr (2, s1)"
    by (cases "entries_loop demo_cap ?W' [?alpha, ?alpha, ?beta] 0 ?s") auto
  from f obtain s2 where f1: "feeds_loop demo_cap ?W ?urls 0 ?s = Inr (2, s2)"
    by (cases "feeds_loop demo_cap ?W ?urls 0 ?s") auto
  from g obtain s3 where g1: "feeds_loop demo_cap ?W ?urls 0 (print [StartingFetch] (print [] ?s)) = Inr (2, s3)"
    by (cases "feeds_loop demo_cap ?W ?urls 0 (print [StartingFetch] (print [] ?s))") auto
  from fetch_counts_executed_upserts [where w = ?W
      and p = "demo_post (str ''Alpha Storm'') (str ''2024-01-01'')" and db = demo_db]
  have u: "snd (upsert ?W (demo_post (str ''Alpha Storm'') (str ''2024-01-01'')) demo_db) = 1"
    by blast
  from fetch_counts_executed_upserts [where cap = demo_cap and w = ?W' and es = "[?alpha, ?alpha, ?beta]"
      and n = 0 and s = ?s and m = 2 and s' = s1] e1
  have "2 = 0 + length (filter (\<lambda>i. db_fault ?W' (tick ?s + i) \<noteq> ExecuteRaises) [0..<length [?alpha, ?alpha, ?beta]])"
    by blast
  from fetch_counts_executed_upserts [where cap = demo_cap and w = ?W and urls = ?urls
      and tot = 0 and s = ?s and t' = 2 and s' = s2] f1
  have "completed_feeds (printed s2) = completed_feeds (printed ?s) @ executed_counts ?W ?urls (tick ?s)"
    by blast
  from fetch_counts_executed_upserts [where cap = demo_cap and w = ?W and urls = ?urls
      and rss = "Some ?urls" and evs = "[]" and s = ?s and t' = 2 and s' = s3] r g1 ne
  have lk: "fetch_blog_posts demo_cap ?W (Some ?urls) ?s = print [FetchComplete 2] s3
    \<and> completed_feeds (printed (fetch_blog_posts demo_cap ?W (Some ?urls) ?s))
       = completed_feeds (printed ?s) @ executed_counts ?W ?urls (tick ?s)"
    by blast
  then have l: "fetch_blog_posts demo_cap ?W (Some ?urls) ?s = print [FetchComplete 2] s3"
    and k: "completed_feeds (printed (fetch_blog_posts demo_cap ?W (Some ?urls) ?s))
       = completed_feeds (printed ?s) @ executed_counts ?W ?urls (tick ?s)"
    by blast+
  have k': "completed_feeds (printed (fetch_blog_posts demo_cap ?W (Some ?urls) ?s))
       = [(str ''alpha'', 1), (str ''beta'', 1)]"
    using k x by (simp add: start_def)
  have l': "last (printed (fetch_blog_posts demo_cap ?W (Some ?urls) ?s)) = FetchComplete 2"
    using l by (simp add: print_def)
  from u e f c x k' l' show ?thesis by blast
qed

end
